theory Spec2Isabelle
  imports Main "HOL-Library.Word" "HOL-Library.Signed_Division"
    "HOL-Library.Char_ord" "HOL-Library.List_Lexorder"
begin

unbundle bit_operations_syntax

section \<open>Bytes and strings\<close>

text \<open>
  A Go \<^verbatim>\<open>string\<close> and a Go \<^verbatim>\<open>[]byte\<close> are both sequences of bytes; both are
  modelled as \<^typ>\<open>string\<close>, a list of 8-bit characters. Unsigned machine words are
  integers with the wrap-around written out.
\<close>

datatype error = SliceBoundsOutOfRange | UnsupportedValue

text \<open>\<^verbatim>\<open>strings.HasPrefix\<close> and \<^verbatim>\<open>strings.HasSuffix\<close>.\<close>

definition HasPrefix :: "string \<Rightarrow> string \<Rightarrow> bool" where
  "HasPrefix s p \<longleftrightarrow> length p \<le> length s \<and> take (length p) s = p"

definition HasSuffix :: "string \<Rightarrow> string \<Rightarrow> bool" where
  "HasSuffix s p \<longleftrightarrow> length p \<le> length s \<and> drop (length s - length p) s = p"

text \<open>The slice expression \<^verbatim>\<open>s[n:]\<close>, which panics when \<^verbatim>\<open>n > len(s)\<close>.\<close>

definition slice_from :: "string \<Rightarrow> nat \<Rightarrow> error + string" where
  "slice_from s n = (if n \<le> length s then Inr (drop n s) else Inl SliceBoundsOutOfRange)"

text \<open>
  The UTF-8 encodings of the code points for which \<^verbatim>\<open>unicode.IsSpace\<close> holds:
  U+0009..U+000D, U+0020, U+0085, U+00A0, U+1680, U+2000..U+200A, U+2028, U+2029,
  U+202F, U+205F and U+3000.
\<close>

definition white_space :: "string list" where
  "white_space =
    [[CHR 0x09], [CHR 0x0A], [CHR 0x0B], [CHR 0x0C], [CHR 0x0D], [CHR 0x20],
     [CHR 0xC2, CHR 0x85], [CHR 0xC2, CHR 0xA0], [CHR 0xE1, CHR 0x9A, CHR 0x80],
     [CHR 0xE2, CHR 0x80, CHR 0x80], [CHR 0xE2, CHR 0x80, CHR 0x81],
     [CHR 0xE2, CHR 0x80, CHR 0x82], [CHR 0xE2, CHR 0x80, CHR 0x83],
     [CHR 0xE2, CHR 0x80, CHR 0x84], [CHR 0xE2, CHR 0x80, CHR 0x85],
     [CHR 0xE2, CHR 0x80, CHR 0x86], [CHR 0xE2, CHR 0x80, CHR 0x87],
     [CHR 0xE2, CHR 0x80, CHR 0x88], [CHR 0xE2, CHR 0x80, CHR 0x89],
     [CHR 0xE2, CHR 0x80, CHR 0x8A], [CHR 0xE2, CHR 0x80, CHR 0xA8],
     [CHR 0xE2, CHR 0x80, CHR 0xA9], [CHR 0xE2, CHR 0x80, CHR 0xAF],
     [CHR 0xE2, CHR 0x81, CHR 0x9F], [CHR 0xE3, CHR 0x80, CHR 0x80]]"

text \<open>
  \<^verbatim>\<open>strings.TrimSpace\<close>: leading white space is removed rune by rune, then trailing
  white space. A white-space rune is recognised at the start (the end) of the string
  exactly when the string starts (ends) with its UTF-8 encoding.
\<close>

function TrimLeft :: "string \<Rightarrow> string" where
  "TrimLeft s = (case find (HasPrefix s) white_space of
      Some w \<Rightarrow> TrimLeft (drop (length w) s)
    | None \<Rightarrow> s)"
  by pat_completeness auto
termination
proof (relation "measure length")
  fix s w
  assume "find (HasPrefix s) white_space = Some w"
  then have "w \<in> set white_space" and "HasPrefix s w"
    by (auto simp: find_Some_iff)
  then have "w \<noteq> []" and "length w \<le> length s"
    by (auto simp: white_space_def HasPrefix_def)
  then show "(drop (length w) s, s) \<in> measure length"
    by (cases w) auto
qed simp

function TrimRight :: "string \<Rightarrow> string" where
  "TrimRight s = (case find (HasSuffix s) white_space of
      Some w \<Rightarrow> TrimRight (take (length s - length w) s)
    | None \<Rightarrow> s)"
  by pat_completeness auto
termination
proof (relation "measure length")
  fix s w
  assume "find (HasSuffix s) white_space = Some w"
  then have "w \<in> set white_space" and "HasSuffix s w"
    by (auto simp: find_Some_iff)
  then have "w \<noteq> []" and "length w \<le> length s"
    by (auto simp: white_space_def HasSuffix_def)
  then show "(take (length s - length w) s, s) \<in> measure length"
    by (cases w) auto
qed simp

declare TrimLeft.simps [simp del] TrimRight.simps [simp del]

definition TrimSpace :: "string \<Rightarrow> string" where
  "TrimSpace s = TrimRight (TrimLeft s)"

text \<open>\<^verbatim>\<open>hex.EncodeToString\<close>: two lowercase digits per byte, high nibble first.\<close>

definition hextable :: string where
  "hextable = ''0123456789abcdef''"

definition EncodeToString :: "string \<Rightarrow> string" where
  "EncodeToString src =
     concat (map (\<lambda>v. [hextable ! (of_char v div 16), hextable ! (of_char v mod 16)]) src)"

section \<open>SHA-256 and SHA-512\<close>

text \<open>
  \<^verbatim>\<open>crypto/sha256\<close> and \<^verbatim>\<open>crypto/sha512\<close>. A \<^verbatim>\<open>uint32\<close> (\<^verbatim>\<open>uint64\<close>) is an
  integer below \<open>2 ^ 32\<close> (\<open>2 ^ 64\<close>); additions are reduced modulo the word size.
\<close>

definition addw :: "nat \<Rightarrow> int \<Rightarrow> int \<Rightarrow> int" where
  "addw w x y = (x + y) mod 2 ^ w"

definition notw :: "nat \<Rightarrow> int \<Rightarrow> int" where
  "notw w x = take_bit w (NOT x)"

text \<open>\<^verbatim>\<open>bits.RotateLeft32(x, -n)\<close> and \<^verbatim>\<open>bits.RotateLeft64(x, -n)\<close>.\<close>

definition rotr :: "nat \<Rightarrow> nat \<Rightarrow> int \<Rightarrow> int" where
  "rotr w n x = drop_bit n x OR take_bit w (push_bit (w - n) x)"

type_synonym digest_state = "int \<times> int \<times> int \<times> int \<times> int \<times> int \<times> int \<times> int"

definition byte :: "int \<Rightarrow> char" where
  "byte x = char_of x"

definition PutUint32 :: "int \<Rightarrow> string" where
  "PutUint32 v = [byte (drop_bit 24 v), byte (drop_bit 16 v), byte (drop_bit 8 v), byte v]"

definition PutUint64 :: "int \<Rightarrow> string" where
  "PutUint64 v = [byte (drop_bit 56 v), byte (drop_bit 48 v), byte (drop_bit 40 v),
     byte (drop_bit 32 v), byte (drop_bit 24 v), byte (drop_bit 16 v), byte (drop_bit 8 v), byte v]"

definition K256 :: "int list" where
  "K256 = [
    0x428A2F98, 0x71374491, 0xB5C0FBCF, 0xE9B5DBA5, 0x3956C25B, 0x59F111F1,
    0x923F82A4, 0xAB1C5ED5, 0xD807AA98, 0x12835B01, 0x243185BE, 0x550C7DC3,
    0x72BE5D74, 0x80DEB1FE, 0x9BDC06A7, 0xC19BF174, 0xE49B69C1, 0xEFBE4786,
    0x0FC19DC6, 0x240CA1CC, 0x2DE92C6F, 0x4A7484AA, 0x5CB0A9DC, 0x76F988DA,
    0x983E5152, 0xA831C66D, 0xB00327C8, 0xBF597FC7, 0xC6E00BF3, 0xD5A79147,
    0x06CA6351, 0x14292967, 0x27B70A85, 0x2E1B2138, 0x4D2C6DFC, 0x53380D13,
    0x650A7354, 0x766A0ABB, 0x81C2C92E, 0x92722C85, 0xA2BFE8A1, 0xA81A664B,
    0xC24B8B70, 0xC76C51A3, 0xD192E819, 0xD6990624, 0xF40E3585, 0x106AA070,
    0x19A4C116, 0x1E376C08, 0x2748774C, 0x34B0BCB5, 0x391C0CB3, 0x4ED8AA4A,
    0x5B9CCA4F, 0x682E6FF3, 0x748F82EE, 0x78A5636F, 0x84C87814, 0x8CC70208,
    0x90BEFFFA, 0xA4506CEB, 0xBEF9A3F7, 0xC67178F2]"

definition init256 :: digest_state where
  "init256 = (
    0x6A09E667, 0xBB67AE85, 0x3C6EF372, 0xA54FF53A,
    0x510E527F, 0x9B05688C, 0x1F83D9AB, 0x5BE0CD19)"

fun words32 :: "string \<Rightarrow> int list" where
  "words32 (b0 # b1 # b2 # b3 # p) =
     (push_bit 24 (of_char b0) OR push_bit 16 (of_char b1) OR push_bit 8 (of_char b2) OR of_char b3)
       # words32 p"
| "words32 _ = []"

function schedule256 :: "int list \<Rightarrow> int list" where
  "schedule256 w = (let i = length w in
     if i < 64 then
       (let v1 = w ! (i - 2);
            t1 = rotr 32 17 v1 XOR rotr 32 19 v1 XOR drop_bit 10 v1;
            v2 = w ! (i - 15);
            t2 = rotr 32 7 v2 XOR rotr 32 18 v2 XOR drop_bit 3 v2
        in schedule256 (w @ [addw 32 (addw 32 (addw 32 t1 (w ! (i - 7))) t2) (w ! (i - 16))]))
     else w)"
  by pat_completeness auto
termination
  by (relation "measure (\<lambda>w. 64 - length w)") auto

declare schedule256.simps [simp del]

fun rounds256 :: "int list \<Rightarrow> int list \<Rightarrow> digest_state \<Rightarrow> digest_state" where
  "rounds256 (k # ks) (wi # ws) (a, b, c, d, e, f, g, h) =
    (let t1 = addw 32 (addw 32 (addw 32 (addw 32 h
                (rotr 32 6 e XOR rotr 32 11 e XOR rotr 32 25 e))
                ((e AND f) XOR (notw 32 e AND g))) k) wi;
         t2 = addw 32 (rotr 32 2 a XOR rotr 32 13 a XOR rotr 32 22 a)
                ((a AND b) XOR (a AND c) XOR (b AND c))
     in rounds256 ks ws (addw 32 t1 t2, a, b, c, addw 32 d t1, e, f, g))"
| "rounds256 _ _ s = s"

fun block256 :: "digest_state \<Rightarrow> string \<Rightarrow> digest_state" where
  "block256 (h0, h1, h2, h3, h4, h5, h6, h7) p =
    (case rounds256 K256 (schedule256 (words32 p)) (h0, h1, h2, h3, h4, h5, h6, h7) of
      (a, b, c, d, e, f, g, h) \<Rightarrow>
        (addw 32 h0 a, addw 32 h1 b, addw 32 h2 c, addw 32 h3 d,
         addw 32 h4 e, addw 32 h5 f, addw 32 h6 g, addw 32 h7 h))"

fun blocks256 :: "digest_state \<Rightarrow> string \<Rightarrow> digest_state" where
  "blocks256 hs p =
     (if 64 \<le> length p then blocks256 (block256 hs (take 64 p)) (drop 64 p) else hs)"

declare blocks256.simps [simp del]

text \<open>
  The padding written by \<^verbatim>\<open>checkSum\<close> after a message of \<open>n\<close> bytes: a one bit, zero bits
  up to 56 bytes modulo 64, and the bit length as a \<^verbatim>\<open>uint64\<close>.
\<close>

definition pad256 :: "nat \<Rightarrow> string" where
  "pad256 n = (let t = (if n mod 64 < 56 then 56 - n mod 64 else 64 + 56 - n mod 64)
     in CHR 0x80 # replicate (t - 1) (CHR 0x00) @ PutUint64 (take_bit 64 (push_bit 3 (int n))))"

definition Sum256 :: "string \<Rightarrow> string" where
  "Sum256 m = (case blocks256 init256 (m @ pad256 (length m)) of
      (h0, h1, h2, h3, h4, h5, h6, h7) \<Rightarrow>
        concat (map PutUint32 [h0, h1, h2, h3, h4, h5, h6, h7]))"

definition K512 :: "int list" where
  "K512 = [
    0x428A2F98D728AE22, 0x7137449123EF65CD, 0xB5C0FBCFEC4D3B2F,
    0xE9B5DBA58189DBBC, 0x3956C25BF348B538, 0x59F111F1B605D019,
    0x923F82A4AF194F9B, 0xAB1C5ED5DA6D8118, 0xD807AA98A3030242,
    0x12835B0145706FBE, 0x243185BE4EE4B28C, 0x550C7DC3D5FFB4E2,
    0x72BE5D74F27B896F, 0x80DEB1FE3B1696B1, 0x9BDC06A725C71235,
    0xC19BF174CF692694, 0xE49B69C19EF14AD2, 0xEFBE4786384F25E3,
    0x0FC19DC68B8CD5B5, 0x240CA1CC77AC9C65, 0x2DE92C6F592B0275,
    0x4A7484AA6EA6E483, 0x5CB0A9DCBD41FBD4, 0x76F988DA831153B5,
    0x983E5152EE66DFAB, 0xA831C66D2DB43210, 0xB00327C898FB213F,
    0xBF597FC7BEEF0EE4, 0xC6E00BF33DA88FC2, 0xD5A79147930AA725,
    0x06CA6351E003826F, 0x142929670A0E6E70, 0x27B70A8546D22FFC,
    0x2E1B21385C26C926, 0x4D2C6DFC5AC42AED, 0x53380D139D95B3DF,
    0x650A73548BAF63DE, 0x766A0ABB3C77B2A8, 0x81C2C92E47EDAEE6,
    0x92722C851482353B, 0xA2BFE8A14CF10364, 0xA81A664BBC423001,
    0xC24B8B70D0F89791, 0xC76C51A30654BE30, 0xD192E819D6EF5218,
    0xD69906245565A910, 0xF40E35855771202A, 0x106AA07032BBD1B8,
    0x19A4C116B8D2D0C8, 0x1E376C085141AB53, 0x2748774CDF8EEB99,
    0x34B0BCB5E19B48A8, 0x391C0CB3C5C95A63, 0x4ED8AA4AE3418ACB,
    0x5B9CCA4F7763E373, 0x682E6FF3D6B2B8A3, 0x748F82EE5DEFB2FC,
    0x78A5636F43172F60, 0x84C87814A1F0AB72, 0x8CC702081A6439EC,
    0x90BEFFFA23631E28, 0xA4506CEBDE82BDE9, 0xBEF9A3F7B2C67915,
    0xC67178F2E372532B, 0xCA273ECEEA26619C, 0xD186B8C721C0C207,
    0xEADA7DD6CDE0EB1E, 0xF57D4F7FEE6ED178, 0x06F067AA72176FBA,
    0x0A637DC5A2C898A6, 0x113F9804BEF90DAE, 0x1B710B35131C471B,
    0x28DB77F523047D84, 0x32CAAB7B40C72493, 0x3C9EBE0A15C9BEBC,
    0x431D67C49C100D4C, 0x4CC5D4BECB3E42B6, 0x597F299CFC657E2A,
    0x5FCB6FAB3AD6FAEC, 0x6C44198C4A475817]"

definition init512 :: digest_state where
  "init512 = (
    0x6A09E667F3BCC908, 0xBB67AE8584CAA73B, 0x3C6EF372FE94F82B,
    0xA54FF53A5F1D36F1, 0x510E527FADE682D1, 0x9B05688C2B3E6C1F,
    0x1F83D9ABFB41BD6B, 0x5BE0CD19137E2179)"

fun words64 :: "string \<Rightarrow> int list" where
  "words64 (b0 # b1 # b2 # b3 # b4 # b5 # b6 # b7 # p) =
     (push_bit 56 (of_char b0) OR push_bit 48 (of_char b1) OR push_bit 40 (of_char b2)
        OR push_bit 32 (of_char b3) OR push_bit 24 (of_char b4) OR push_bit 16 (of_char b5)
        OR push_bit 8 (of_char b6) OR of_char b7)
       # words64 p"
| "words64 _ = []"

function schedule512 :: "int list \<Rightarrow> int list" where
  "schedule512 w = (let i = length w in
     if i < 80 then
       (let v1 = w ! (i - 2);
            t1 = rotr 64 19 v1 XOR rotr 64 61 v1 XOR drop_bit 6 v1;
            v2 = w ! (i - 15);
            t2 = rotr 64 1 v2 XOR rotr 64 8 v2 XOR drop_bit 7 v2
        in schedule512 (w @ [addw 64 (addw 64 (addw 64 t1 (w ! (i - 7))) t2) (w ! (i - 16))]))
     else w)"
  by pat_completeness auto
termination
  by (relation "measure (\<lambda>w. 80 - length w)") auto

declare schedule512.simps [simp del]

fun rounds512 :: "int list \<Rightarrow> int list \<Rightarrow> digest_state \<Rightarrow> digest_state" where
  "rounds512 (k # ks) (wi # ws) (a, b, c, d, e, f, g, h) =
    (let t1 = addw 64 (addw 64 (addw 64 (addw 64 h
                (rotr 64 14 e XOR rotr 64 18 e XOR rotr 64 41 e))
                ((e AND f) XOR (notw 64 e AND g))) k) wi;
         t2 = addw 64 (rotr 64 28 a XOR rotr 64 34 a XOR rotr 64 39 a)
                ((a AND b) XOR (a AND c) XOR (b AND c))
     in rounds512 ks ws (addw 64 t1 t2, a, b, c, addw 64 d t1, e, f, g))"
| "rounds512 _ _ s = s"

fun block512 :: "digest_state \<Rightarrow> string \<Rightarrow> digest_state" where
  "block512 (h0, h1, h2, h3, h4, h5, h6, h7) p =
    (case rounds512 K512 (schedule512 (words64 p)) (h0, h1, h2, h3, h4, h5, h6, h7) of
      (a, b, c, d, e, f, g, h) \<Rightarrow>
        (addw 64 h0 a, addw 64 h1 b, addw 64 h2 c, addw 64 h3 d,
         addw 64 h4 e, addw 64 h5 f, addw 64 h6 g, addw 64 h7 h))"

fun blocks512 :: "digest_state \<Rightarrow> string \<Rightarrow> digest_state" where
  "blocks512 hs p =
     (if 128 \<le> length p then blocks512 (block512 hs (take 128 p)) (drop 128 p) else hs)"

declare blocks512.simps [simp del]

text \<open>
  SHA-512 pads up to 112 bytes modulo 128 and appends the bit length as two
  \<^verbatim>\<open>uint64\<close>: \<^verbatim>\<open>len >> 61\<close> and \<^verbatim>\<open>len << 3\<close>, the byte count being a \<^verbatim>\<open>uint64\<close>.
\<close>

definition pad512 :: "nat \<Rightarrow> string" where
  "pad512 n = (let t = (if n mod 128 < 112 then 112 - n mod 128 else 128 + 112 - n mod 128);
                   len = take_bit 64 (int n)
     in CHR 0x80 # replicate (t - 1) (CHR 0x00)
          @ PutUint64 (drop_bit 61 len) @ PutUint64 (take_bit 64 (push_bit 3 len)))"

definition Sum512 :: "string \<Rightarrow> string" where
  "Sum512 m = (case blocks512 init512 (m @ pad512 (length m)) of
      (h0, h1, h2, h3, h4, h5, h6, h7) \<Rightarrow>
        concat (map PutUint64 [h0, h1, h2, h3, h4, h5, h6, h7]))"

section \<open>HMAC\<close>

text \<open>
  What \<^verbatim>\<open>crypto/hmac\<close> needs of a \<^verbatim>\<open>hash.Hash\<close> factory: the digest of a message and the
  block size.
\<close>

record hash =
  hash_Sum :: "string \<Rightarrow> string"
  hash_BlockSize :: nat

definition sha256_New :: hash where
  "sha256_New = \<lparr>hash_Sum = Sum256, hash_BlockSize = 64\<rparr>"

definition sha512_New :: hash where
  "sha512_New = \<lparr>hash_Sum = Sum512, hash_BlockSize = 128\<rparr>"

definition xor_bytes :: "int \<Rightarrow> string \<Rightarrow> string" where
  "xor_bytes x p = map (\<lambda>c. byte (of_char c XOR x)) p"

text \<open>
  \<^verbatim>\<open>hmac.New(factory, key)\<close>, \<^verbatim>\<open>Write(msg)\<close> and \<^verbatim>\<open>Sum(nil)\<close>: a key longer than a block
  is hashed first; the key is copied into zeroed pads of one block.
\<close>

definition hmac :: "hash \<Rightarrow> string \<Rightarrow> string \<Rightarrow> string" where
  "hmac factory key msg =
    (let blocksize = hash_BlockSize factory;
         key = (if length key > blocksize then hash_Sum factory key else key);
         pad = take blocksize key @ replicate (blocksize - length key) (CHR 0x00);
         ipad = xor_bytes 0x36 pad;
         opad = xor_bytes 0x5C pad
     in hash_Sum factory (opad @ hash_Sum factory (ipad @ msg)))"

section \<open>Webhook helpers (package webhooks)\<close>

definition MetadataOrgID :: string where "MetadataOrgID = ''org_id''"
definition MetadataConnectionID :: string where "MetadataConnectionID = ''connection_id''"
definition MetadataPaymentID :: string where "MetadataPaymentID = ''payment_id''"

definition BuildMetadata :: "string \<Rightarrow> string \<Rightarrow> string \<Rightarrow> (string \<rightharpoonup> string)" where
  "BuildMetadata orgID connectionID paymentID =
    (let meta = Map.empty;
         meta = (let trimmed = TrimSpace orgID in
                 if trimmed \<noteq> [] then meta(MetadataOrgID \<mapsto> trimmed) else meta);
         meta = (let trimmed = TrimSpace connectionID in
                 if trimmed \<noteq> [] then meta(MetadataConnectionID \<mapsto> trimmed) else meta);
         meta = (let trimmed = TrimSpace paymentID in
                 if trimmed \<noteq> [] then meta(MetadataPaymentID \<mapsto> trimmed) else meta)
     in meta)"

definition signHex :: "string \<Rightarrow> string \<Rightarrow> hash \<Rightarrow> string" where
  "signHex body secret factory =
    (let secret = TrimSpace secret in
     if length body = 0 \<or> secret = [] then []
     else EncodeToString (hmac factory secret body))"

definition SignPaystack :: "string \<Rightarrow> string \<Rightarrow> string" where
  "SignPaystack body secretKey = signHex body secretKey sha512_New"

definition SignHubtel :: "string \<Rightarrow> string \<Rightarrow> string" where
  "SignHubtel body clientSecret = signHex body clientSecret sha256_New"

definition SignPolar :: "string \<Rightarrow> string \<Rightarrow> string" where
  "SignPolar body clientSecret = signHex body clientSecret sha256_New"

definition FlutterwaveHash :: "string \<Rightarrow> string" where
  "FlutterwaveHash secretHash = TrimSpace secretHash"

section \<open>Verification of the platform's own signature header\<close>

text \<open>
  \<^verbatim>\<open>subtle.ConstantTimeByteEq\<close> and \<^verbatim>\<open>subtle.ConstantTimeCompare\<close>, on which
  \<^verbatim>\<open>hmac.Equal\<close> rests. The subtraction is on \<^verbatim>\<open>uint32\<close> and wraps at zero.
\<close>

definition ConstantTimeByteEq :: "8 word \<Rightarrow> 8 word \<Rightarrow> int" where
  "ConstantTimeByteEq x y = uint (drop_bit 31 ((ucast (x XOR y) :: 32 word) - 1))"

definition ConstantTimeCompare :: "string \<Rightarrow> string \<Rightarrow> int" where
  "ConstantTimeCompare x y =
    (if length x \<noteq> length y then 0
     else ConstantTimeByteEq (foldl (\<lambda>v (xi, yi). v OR (of_char xi XOR of_char yi)) 0 (zip x y)) 0)"

definition hmac_Equal :: "string \<Rightarrow> string \<Rightarrow> bool" where
  "hmac_Equal mac1 mac2 \<longleftrightarrow> ConstantTimeCompare mac1 mac2 = 1"

text \<open>
  \<^verbatim>\<open>VerifySignature\<close> of the README's webhook handler. \<open>Inl\<close> is a run-time panic of the
  slice expression.
\<close>

definition VerifySignature :: "string \<Rightarrow> string \<Rightarrow> string \<Rightarrow> error + bool" where
  "VerifySignature payload signature secret =
    (if \<not> HasPrefix signature ''sha256='' then Inr False
     else
       (let expected = EncodeToString (hmac sha256_New secret payload) in
        case slice_from signature 7 of
          Inl e \<Rightarrow> Inl e
        | Inr received \<Rightarrow> Inr (hmac_Equal received expected)))"

section \<open>Idempotency keys\<close>

text \<open>
  The verb \<^verbatim>\<open>%d\<close> on an \<^verbatim>\<open>int64\<close>: the decimal digits of the magnitude, after a minus
  sign for a negative number.
\<close>

function digits :: "int \<Rightarrow> string" where
  "digits u = (if u < 10 then [byte (48 + u)] else digits (u div 10) @ [byte (48 + u mod 10)])"
  by pat_completeness auto
termination
  by (relation "measure nat") auto

declare digits.simps [simp del]

definition FormatInt :: "int \<Rightarrow> string" where
  "FormatInt i = (if i < 0 then CHR ''-'' # digits (- i) else digits i)"

text \<open>
  A parameter set is a Go map from strings to values of any type: a partial function.
  \<^verbatim>\<open>json.Marshal\<close> is a parameter of the model; it may fail, and the caller discards the
  error, keeping the (then empty) bytes. Indexing a map at an absent key gives
  \<^verbatim>\<open>nil\<close>, which is marshalled as \<^verbatim>\<open>null\<close>.
\<close>

definition valueBytes :: "('v \<Rightarrow> error + string) \<Rightarrow> 'v option \<Rightarrow> string" where
  "valueBytes Marshal v =
    (case v of
      None \<Rightarrow> ''null''
    | Some x \<Rightarrow> (case Marshal x of Inr bs \<Rightarrow> bs | Inl e \<Rightarrow> []))"

text \<open>The loop over the sorted keys, \<open>i\<close> being the index and \<open>builder\<close> the text so far.\<close>

fun write_entries ::
  "('v \<Rightarrow> error + string) \<Rightarrow> (string \<rightharpoonup> 'v) \<Rightarrow> nat \<Rightarrow> string list \<Rightarrow> string \<Rightarrow> string"
where
  "write_entries Marshal params i [] builder = builder"
| "write_entries Marshal params i (key # keys) builder =
    (let builder = (if i > 0 then builder @ ''|'' else builder);
         bs = valueBytes Marshal (params key);
         builder = builder @ key;
         builder = builder @ '':'';
         builder = builder @ bs
     in write_entries Marshal params (i + 1) keys builder)"

text \<open>
  The text in the builder when the loop ends. \<open>iter\<close> is the order in which
  \<^verbatim>\<open>range params\<close> yields the keys, which Go leaves unspecified; \<^verbatim>\<open>sort.Strings\<close> orders
  them bytewise.
\<close>

definition canonical_encoding ::
  "('v \<Rightarrow> error + string) \<Rightarrow> string list \<Rightarrow> (string \<rightharpoonup> 'v) \<Rightarrow> string"
where
  "canonical_encoding Marshal iter params = write_entries Marshal params 0 (sort iter) []"

text \<open>\<open>now\<close> is \<^verbatim>\<open>time.Now().Unix()\<close>; Go's division truncates towards zero.\<close>

definition GenerateIdempotencyKey ::
  "int \<Rightarrow> ('v \<Rightarrow> error + string) \<Rightarrow> string list \<Rightarrow> (string \<rightharpoonup> 'v) \<Rightarrow> string"
where
  "GenerateIdempotencyKey now Marshal iter params =
    (let digest = Sum256 (canonical_encoding Marshal iter params);
         timeBucket = now sdiv (5 * 60)
     in ''reevit_'' @ FormatInt timeBucket @ ''_'' @ EncodeToString digest)"

text \<open>
  Values for worked examples: \<^verbatim>\<open>nil\<close>, booleans and integers, which \<^verbatim>\<open>json.Marshal\<close>
  renders as \<^verbatim>\<open>null\<close>, \<^verbatim>\<open>true\<close>, \<^verbatim>\<open>false\<close> and a decimal number, and a function value,
  which it rejects.
\<close>

datatype any = any_nil | any_bool bool | any_int int | any_func

fun json_Marshal :: "any \<Rightarrow> error + string" where
  "json_Marshal any_nil = Inr ''null''"
| "json_Marshal (any_bool b) = Inr (if b then ''true'' else ''false'')"
| "json_Marshal (any_int i) = Inr (FormatInt i)"
| "json_Marshal any_func = Inl UnsupportedValue"

subsection \<open>The canonical encoding as the specification words it\<close>

fun join :: "string \<Rightarrow> string list \<Rightarrow> string" where
  "join sep [] = []"
| "join sep [x] = x"
| "join sep (x # y # ys) = x @ sep @ join sep (y # ys)"

text \<open>
  All keys in ascending byte order, each rendered as the key, a colon and the JSON
  serialization \<open>json\<close> of its value, joined by a bar.
\<close>

definition canonical_spec :: "('v \<Rightarrow> string) \<Rightarrow> (string \<rightharpoonup> 'v) \<Rightarrow> string" where
  "canonical_spec json params =
     join ''|'' (map (\<lambda>key. key @ '':'' @ json (the (params key))) (sorted_list_of_set (dom params)))"

text \<open>
  The caller builds a parameter set by assignments \<^verbatim>\<open>params[key] = value\<close>, one after the
  other, to an empty map.
\<close>

definition assign :: "(string \<rightharpoonup> 'v) \<Rightarrow> string \<times> 'v \<Rightarrow> (string \<rightharpoonup> 'v)" where
  "assign params kv = params(fst kv \<mapsto> snd kv)"

definition build_params :: "(string \<times> 'v) list \<Rightarrow> (string \<rightharpoonup> 'v)" where
  "build_params kvs = foldl assign Map.empty kvs"

text \<open>The number that a string of decimal digits denotes.\<close>

definition decimal_value :: "string \<Rightarrow> int" where
  "decimal_value s = foldl (\<lambda>a c. 10 * a + (of_char c - 48)) 0 s"

text \<open>The JSON text of an example value (empty for the value that has none).\<close>

definition json_text :: "any \<Rightarrow> string" where
  "json_text v = valueBytes json_Marshal (Some v)"

text \<open>
  A serialization is self-delimiting on a set of values when no text, followed by a bar
  or by nothing, can be read as the text of a different value followed by a bar or by
  nothing. JSON texts are.
\<close>

definition delimited :: "string \<Rightarrow> bool" where
  "delimited s \<longleftrightarrow> s = [] \<or> hd s = CHR ''|''"

definition self_delimiting :: "('v \<Rightarrow> string) \<Rightarrow> 'v set \<Rightarrow> bool" where
  "self_delimiting json V \<longleftrightarrow>
     (\<forall>v w s t. v \<in> V \<and> w \<in> V \<and> delimited s \<and> delimited t \<and> json v @ s = json w @ t
        \<longrightarrow> v = w)"

subsection \<open>Parts of the encoding\<close>

text \<open>One entry of the encoding, as the loop writes it.\<close>

definition entry :: "('v \<Rightarrow> error + string) \<Rightarrow> (string \<rightharpoonup> 'v) \<Rightarrow> string \<Rightarrow> string" where
  "entry Marshal params key = key @ '':'' @ valueBytes Marshal (params key)"

text \<open>The entries after the first, each behind its bar.\<close>

definition later_entries :: "(string \<Rightarrow> string) \<Rightarrow> string list \<Rightarrow> string" where
  "later_entries f keys = concat (map (\<lambda>key. ''|'' @ f key) keys)"

section \<open>Auxiliary facts\<close>

lemma HasPrefix_iff: "HasPrefix s p \<longleftrightarrow> (\<exists>r. s = p @ r)"
proof
  assume "HasPrefix s p"
  then have "s = p @ drop (length p) s"
    by (metis HasPrefix_def append_take_drop_id)
  then show "\<exists>r. s = p @ r" ..
next
  assume "\<exists>r. s = p @ r"
  then show "HasPrefix s p"
    by (auto simp: HasPrefix_def)
qed

lemma unat_of_char_word8: "unat (of_char c :: 8 word) = of_char c"
proof -
  have "(of_char c :: 8 word) = of_nat (of_char c)"
    by (simp add: of_nat_of_char)
  moreover have "(of_char c :: nat) < 256"
    by simp
  ultimately show ?thesis
    by (simp add: unat_of_nat)
qed

lemma of_char_word8_inject: "(of_char a :: 8 word) = of_char b \<longleftrightarrow> a = b"
proof
  assume "(of_char a :: 8 word) = of_char b"
  then have "unat (of_char a :: 8 word) = unat (of_char b :: 8 word)"
    by simp
  then have "(of_char a :: nat) = of_char b"
    by (simp only: unat_of_char_word8)
  then show "a = b"
    by simp
qed simp

lemma xor_word8_zero: "(a :: 8 word) XOR b = 0 \<longleftrightarrow> a = b"
proof
  assume "a XOR b = 0"
  then have "(a XOR b) XOR b = 0 XOR b"
    by simp
  then show "a = b"
    by (simp add: xor.assoc)
qed simp

lemma fold_or_xor_zero:
  "length x = length y \<Longrightarrow>
   foldl (\<lambda>v (xi, yi). v OR (of_char xi XOR of_char yi)) (v0 :: 8 word) (zip x y) = 0
     \<longleftrightarrow> v0 = 0 \<and> x = y"
proof (induction x y arbitrary: v0 rule: list_induct2)
  case Nil
  then show ?case by simp
next
  case (Cons a x b y)
  then show ?case
    by (auto simp: or_eq_0_iff xor_word8_zero of_char_word8_inject)
qed

lemma ConstantTimeByteEq_zero: "ConstantTimeByteEq v 0 = 1 \<longleftrightarrow> v = 0"
proof (cases "v = 0")
  case True
  then show ?thesis
    by (simp add: ConstantTimeByteEq_def)
next
  case False
  then have pos: "0 < unat v"
    by (simp add: unat_gt_0)
  have lt: "unat v < 256"
    using unsigned_less [of v, where ?'a = nat] by simp
  have u: "unat (ucast v :: 32 word) = unat v"
    using lt by (simp add: unsigned_ucast_eq take_bit_nat_eq_self)
  have "(1 :: 32 word) \<le> ucast v"
    using pos u by (simp add: word_le_nat_alt)
  then have "unat ((ucast v :: 32 word) - 1) = unat v - 1"
    using u by (simp add: unat_sub)
  then have "unat (drop_bit 31 ((ucast v :: 32 word) - 1)) = drop_bit 31 (unat v - 1)"
    by (simp only: unat_drop_bit_eq)
  also have "\<dots> = 0"
    using lt by (simp add: drop_bit_eq_div)
  finally have "unat (drop_bit 31 ((ucast v :: 32 word) - 1)) = 0" .
  then have "drop_bit 31 ((ucast v :: 32 word) - 1) = 0"
    by (simp only: unat_0_iff)
  with False show ?thesis
    by (simp add: ConstantTimeByteEq_def)
qed


lemma hmac_Equal_iff: "hmac_Equal mac1 mac2 \<longleftrightarrow> mac1 = mac2"
proof (cases "length mac1 = length mac2")
  case True
  then show ?thesis
    by (simp add: hmac_Equal_def ConstantTimeCompare_def ConstantTimeByteEq_zero fold_or_xor_zero)
next
  case False
  then show ?thesis
    by (auto simp: hmac_Equal_def ConstantTimeCompare_def)
qed


lemma VerifySignature_eq:
  "VerifySignature payload signature secret =
     Inr (signature = ''sha256='' @ EncodeToString (hmac sha256_New secret payload))"
proof (cases "HasPrefix signature ''sha256=''")
  case False
  then show ?thesis
    unfolding VerifySignature_def HasPrefix_iff by auto
next
  case True
  then obtain r where r: "signature = ''sha256='' @ r"
    unfolding HasPrefix_iff by blast
  have "slice_from signature 7 = Inr r"
    by (simp add: slice_from_def r)
  with True show ?thesis
    by (simp add: VerifySignature_def hmac_Equal_iff r)
qed

lemma length_PutUint32: "length (PutUint32 v) = 4"
  by (simp add: PutUint32_def)

lemma length_PutUint64: "length (PutUint64 v) = 8"
  by (simp add: PutUint64_def)

lemma length_Sum256: "length (Sum256 m) = 32"
  by (simp add: Sum256_def length_PutUint32 split: prod.splits)

lemma length_Sum512: "length (Sum512 m) = 64"
  by (simp add: Sum512_def length_PutUint64 split: prod.splits)

lemma length_EncodeToString: "length (EncodeToString src) = 2 * length src"
  by (induction src) (simp_all add: EncodeToString_def)


lemma hextable_nth_inject:
  "i < 16 \<Longrightarrow> j < 16 \<Longrightarrow> hextable ! i = hextable ! j \<longleftrightarrow> i = j"
  by (rule nth_eq_iff_index_eq) (simp_all add: hextable_def)

lemma high_nibble_less: "(of_char c :: nat) div 16 < 16"
proof -
  have "(of_char c :: nat) < 16 * 16"
    by simp
  then show ?thesis
    by (rule less_mult_imp_div_less)
qed

lemma hex_pair_inject:
  assumes "hextable ! (of_char a div 16) = hextable ! (of_char b div 16)"
    and "hextable ! (of_char a mod 16) = hextable ! (of_char b mod 16)"
  shows "a = b"
proof -
  have d: "(of_char a :: nat) div 16 = of_char b div 16"
    using assms(1) by (subst (asm) hextable_nth_inject) (simp_all add: high_nibble_less)
  have m: "(of_char a :: nat) mod 16 = of_char b mod 16"
    using assms(2) by (subst (asm) hextable_nth_inject) auto
  from d m have "(of_char a :: nat) = of_char b"
    by (metis div_mult_mod_eq)
  then show ?thesis
    by simp
qed

lemma EncodeToString_Cons:
  "EncodeToString (v # src) =
     hextable ! (of_char v div 16) # hextable ! (of_char v mod 16) # EncodeToString src"
  by (simp add: EncodeToString_def)

lemma EncodeToString_Nil: "EncodeToString [] = []"
  by (simp add: EncodeToString_def)

lemma EncodeToString_inject: "EncodeToString x = EncodeToString y \<longleftrightarrow> x = y"
proof
  show "EncodeToString x = EncodeToString y \<Longrightarrow> x = y"
  proof (induction x arbitrary: y)
    case Nil
    then show ?case
      by (cases y) (simp_all add: EncodeToString_Nil EncodeToString_Cons)
  next
    case (Cons a x)
    then show ?case
      by (cases y) (auto simp: EncodeToString_Nil EncodeToString_Cons dest: hex_pair_inject)
  qed
qed simp

lemma hextable_nth_mem: "i < 16 \<Longrightarrow> hextable ! i \<in> set hextable"
  by (rule nth_mem) (simp add: hextable_def)

lemma EncodeToString_lowercase: "set (EncodeToString src) \<subseteq> set ''0123456789abcdef''"
proof (induction src)
  case Nil
  then show ?case by (simp add: EncodeToString_Nil)
next
  case (Cons v src)
  have "(of_char v :: nat) div 16 < 16" "(of_char v :: nat) mod 16 < 16"
    by (simp_all add: high_nibble_less)
  then have "hextable ! (of_char v div 16) \<in> set hextable" "hextable ! (of_char v mod 16) \<in> set hextable"
    by (simp_all only: hextable_nth_mem)
  with Cons show ?case
    by (simp add: EncodeToString_Cons hextable_def)
qed

lemma length_hmac_sha256: "length (hmac sha256_New key msg) = 32"
  by (simp add: hmac_def sha256_New_def length_Sum256 Let_def)

lemma length_hmac_sha512: "length (hmac sha512_New key msg) = 64"
  by (simp add: hmac_def sha512_New_def length_Sum512 Let_def)

lemma TrimSpace_Nil: "TrimSpace [] = []"
  by code_simp

lemma TrimSpace_blank: "TrimSpace [CHR 0x20, CHR 0x09] = []"
  by code_simp

lemma TrimSpace_secret: "TrimSpace ''secret'' = ''secret''"
  by code_simp

lemma TrimSpace_space_secret: "TrimSpace '' secret'' = ''secret''"
  by code_simp

lemma signHex_empty: "signHex [] secret factory = []"
  by (simp add: signHex_def)

lemma signHex_blank: "TrimSpace secret = [] \<Longrightarrow> signHex body secret factory = []"
  by (simp add: signHex_def)

lemma signHex_signed:
  "body \<noteq> [] \<Longrightarrow> TrimSpace secret \<noteq> [] \<Longrightarrow>
   signHex body secret factory = EncodeToString (hmac factory (TrimSpace secret) body)"
  by (simp add: signHex_def)

lemma length_signHex:
  "length (signHex body secret factory) =
     (if body = [] \<or> TrimSpace secret = [] then 0
      else 2 * length (hmac factory (TrimSpace secret) body))"
  by (simp add: signHex_def length_EncodeToString)

lemma TrimSpace_org_1: "TrimSpace ''org_1'' = ''org_1''"
  by code_simp

lemma TrimSpace_conn_1: "TrimSpace ''conn_1'' = ''conn_1''"
  by code_simp

lemma TrimSpace_pay_1: "TrimSpace ''pay_1'' = ''pay_1''"
  by code_simp

lemma write_entries_later:
  "0 < i \<Longrightarrow> write_entries Marshal params i keys builder =
     builder @ concat (map (\<lambda>key. ''|'' @ entry Marshal params key) keys)"
  by (induction keys arbitrary: i builder) (simp_all add: entry_def Let_def)

lemma join_bar: "join ''|'' (x # xs) = x @ concat (map (\<lambda>y. ''|'' @ y) xs)"
  by (induction xs arbitrary: x) simp_all

lemma write_entries_join:
  "write_entries Marshal params 0 keys [] = join ''|'' (map (entry Marshal params) keys)"
proof (cases keys)
  case Nil
  then show ?thesis by simp
next
  case (Cons key rest)
  then show ?thesis
    by (simp add: write_entries_later join_bar Let_def entry_def comp_def)
qed

lemma canonical_encoding_join:
  "canonical_encoding Marshal iter params =
     join ''|'' (map (entry Marshal params) (sort iter))"
  by (simp add: canonical_encoding_def write_entries_join)

lemma sort_iteration_order:
  "distinct iter \<Longrightarrow> set iter = dom params \<Longrightarrow> sort iter = sorted_list_of_set (dom params)"
  by (metis distinct_remdups_id sorted_list_of_set_sort_remdups)

lemma entry_json:
  "\<forall>v\<in>ran params. Marshal v = Inr (json v) \<Longrightarrow> key \<in> dom params \<Longrightarrow>
   entry Marshal params key = key @ '':'' @ json (the (params key))"
  by (auto simp: entry_def valueBytes_def ran_def)

lemma canonical_encoding_spec:
  assumes "distinct iter" and "set iter = dom params"
    and "\<forall>v\<in>ran params. Marshal v = Inr (json v)"
  shows "canonical_encoding Marshal iter params = canonical_spec json params"
proof -
  have fin: "finite (dom params)"
    using assms(2) by (metis List.finite_set)
  have "map (entry Marshal params) (sorted_list_of_set (dom params)) =
      map (\<lambda>key. key @ '':'' @ json (the (params key))) (sorted_list_of_set (dom params))"
    using fin assms(3) by (intro map_cong refl entry_json) simp_all
  then have "join ''|'' (map (entry Marshal params) (sorted_list_of_set (dom params))) =
      join ''|'' (map (\<lambda>key. key @ '':'' @ json (the (params key))) (sorted_list_of_set (dom params)))"
    by (rule arg_cong)
  then show ?thesis
    unfolding canonical_encoding_join canonical_spec_def sort_iteration_order [OF assms(1,2)] .
qed

lemma canonical_encoding_order:
  "distinct iter \<Longrightarrow> set iter = dom params \<Longrightarrow> distinct iter' \<Longrightarrow> set iter' = dom params \<Longrightarrow>
   canonical_encoding Marshal iter' params = canonical_encoding Marshal iter params"
  by (simp add: canonical_encoding_join sort_iteration_order)

lemma foldl_assign: "foldl assign m kvs = m ++ map_of (rev kvs)"
  by (induction kvs arbitrary: m) (simp_all add: assign_def map_add_upd_left map_add_def fun_eq_iff split: option.splits)

lemma build_params_map_of: "distinct (map fst kvs) \<Longrightarrow> build_params kvs = map_of kvs"
proof -
  assume d: "distinct (map fst kvs)"
  then have "distinct (map fst (rev kvs))"
    by (simp add: rev_map [symmetric])
  then have "map_of (rev kvs) = map_of kvs"
    using d by (simp add: map_of_inject_set)
  then show ?thesis
    by (simp add: build_params_def foldl_assign)
qed

lemma build_params_insertion_order:
  "distinct (map fst kvs) \<Longrightarrow> distinct (map fst kvs') \<Longrightarrow> set kvs = set kvs' \<Longrightarrow>
   build_params kvs = build_params kvs'"
  by (simp add: build_params_map_of map_of_inject_set)

lemma json_text_simps:
  "json_text any_nil = ''null''"
  "json_text (any_bool True) = ''true''"
  "json_text (any_bool False) = ''false''"
  "json_text (any_int i) = FormatInt i"
  "json_text any_func = []"
  by (simp_all add: json_text_def valueBytes_def)

lemma FormatInt_1: "FormatInt 1 = ''1''"
  by code_simp

lemma FormatInt_2: "FormatInt 2 = ''2''"
  by code_simp

lemma example_params_built:
  "build_params [(''b'', any_bool True), (''a'', any_int 1)] = [''a'' \<mapsto> any_int 1, ''b'' \<mapsto> any_bool True]"
  "build_params [(''a'', any_int 1), (''b'', any_bool True)] = [''a'' \<mapsto> any_int 1, ''b'' \<mapsto> any_bool True]"
  by (auto simp: build_params_def assign_def)

lemma example_encoding:
  "canonical_encoding json_Marshal [''b'', ''a''] [''a'' \<mapsto> any_int 1, ''b'' \<mapsto> any_bool True] = ''a:1|b:true''"
  by code_simp

lemma of_char_byte: "0 \<le> d \<Longrightarrow> d < 10 \<Longrightarrow> (of_char (byte (48 + d)) :: int) = 48 + d"
  by (simp add: byte_def)

lemma decimal_value_snoc:
  "decimal_value (s @ [c]) = 10 * decimal_value s + (of_char c - 48)"
  by (simp add: decimal_value_def)

lemma decimal_value_digits: "0 \<le> u \<Longrightarrow> decimal_value (digits u) = u"
proof (induction u rule: digits.induct)
  case (1 u)
  show ?case
  proof (cases "u < 10")
    case True
    with 1(2) show ?thesis
      by (subst digits.simps) (simp add: decimal_value_def of_char_byte)
  next
    case False
    with 1 have ih: "decimal_value (digits (u div 10)) = u div 10"
      by simp
    have "(0::int) \<le> u mod 10" "u mod 10 < 10"
      by simp_all
    then have "(of_char (byte (48 + u mod 10)) :: int) = 48 + u mod 10"
      by (rule of_char_byte)
    with False ih show ?thesis
      by (subst digits.simps) (simp add: decimal_value_snoc)
  qed
qed

lemma digits_inject: "0 \<le> u \<Longrightarrow> 0 \<le> v \<Longrightarrow> digits u = digits v \<longleftrightarrow> u = v"
  by (metis decimal_value_digits)

lemma digits_decimal: "0 \<le> u \<Longrightarrow> set (digits u) \<subseteq> set ''0123456789''"
proof (induction u rule: digits.induct)
  case (1 u)
  have d: "byte (48 + d) \<in> set ''0123456789''" if "0 \<le> d" "d < 10" for d
  proof -
    have "\<forall>d\<in>set [0, 1, 2, 3, 4, 5, 6, 7, 8, 9]. byte (48 + d) \<in> set ''0123456789''"
      by code_simp
    moreover from that have "d \<in> set [0, 1, 2, 3, 4, 5, 6, 7, 8, 9]"
      by simp presburger
    ultimately show ?thesis
      by (rule bspec)
  qed
  show ?case
  proof (cases "u < 10")
    case True
    with 1(2) d [of u] show ?thesis
      by (subst digits.simps) simp
  next
    case False
    with 1 have "set (digits (u div 10)) \<subseteq> set ''0123456789''"
      by simp
    moreover have "byte (48 + u mod 10) \<in> set ''0123456789''"
      by (rule d) simp_all
    ultimately show ?thesis
      using False by (subst digits.simps) simp
  qed
qed

lemma sdiv_nonneg: "0 \<le> t \<Longrightarrow> t sdiv 300 = t div 300" for t :: int
  by (cases "t = 0") (simp_all add: signed_divide_int_def sgn_if)

lemma FormatInt_nonneg: "0 \<le> i \<Longrightarrow> FormatInt i = digits i"
  by (simp add: FormatInt_def)

lemma GenerateIdempotencyKey_nonneg:
  "0 \<le> t \<Longrightarrow> GenerateIdempotencyKey t Marshal iter params =
     ''reevit_'' @ digits (t div 300) @ ''_'' @
       EncodeToString (Sum256 (canonical_encoding Marshal iter params))"
  by (simp add: GenerateIdempotencyKey_def sdiv_nonneg FormatInt_nonneg pos_imp_zdiv_nonneg_iff)

lemma key_same_digest:
  "''reevit_'' @ d @ ''_'' @ h = ''reevit_'' @ d' @ ''_'' @ h \<longleftrightarrow> d = d'"
  by simp

lemma example_bucket: "digits (1700000000 div 300) = ''5666666''"
  by code_simp

lemma split_at_colon:
  "CHR '':'' \<notin> set a \<Longrightarrow> CHR '':'' \<notin> set b \<Longrightarrow> a @ CHR '':'' # x = b @ CHR '':'' # y \<Longrightarrow>
   a = b \<and> x = y"
proof (induction a arbitrary: b)
  case Nil
  then show ?case by (cases b) auto
next
  case (Cons c a)
  then show ?case by (cases b) auto
qed

lemma later_entries_simps:
  "later_entries f [] = []"
  "later_entries f (key # keys) = CHR ''|'' # f key @ later_entries f keys"
  by (simp_all add: later_entries_def)

lemma delimited_later_entries: "delimited (later_entries f keys)"
  by (cases keys) (simp_all add: delimited_def later_entries_simps)

lemma join_later_entries:
  "keys \<noteq> [] \<Longrightarrow> CHR ''|'' # join ''|'' (map f keys) = later_entries f keys"
  by (cases keys) (simp_all add: join_bar later_entries_def comp_def)

lemma join_entries_nonempty:
  "keys \<noteq> [] \<Longrightarrow> join ''|'' (map (entry Marshal params) keys) \<noteq> []"
  by (cases keys) (simp_all add: join_bar entry_def)

lemma later_entries_inject:
  assumes json: "\<forall>v\<in>ran p1 \<union> ran p2. Marshal v = Inr (json v)"
    and sd: "self_delimiting json (ran p1 \<union> ran p2)"
  shows "\<forall>k\<in>set ks1. CHR '':'' \<notin> set k \<and> k \<in> dom p1 \<Longrightarrow>
    \<forall>k\<in>set ks2. CHR '':'' \<notin> set k \<and> k \<in> dom p2 \<Longrightarrow>
    later_entries (entry Marshal p1) ks1 = later_entries (entry Marshal p2) ks2 \<Longrightarrow>
    ks1 = ks2 \<and> (\<forall>k\<in>set ks1. p1 k = p2 k)"
proof (induction ks1 arbitrary: ks2)
  case Nil
  then show ?case
    by (cases ks2) (simp_all add: later_entries_simps)
next
  case (Cons k1 r1)
  from Cons.prems(3) obtain k2 r2 where ks2: "ks2 = k2 # r2"
    by (cases ks2) (simp_all add: later_entries_simps)
  from Cons.prems(1) obtain v1 where v1: "p1 k1 = Some v1" and c1: "CHR '':'' \<notin> set k1"
    by auto
  from Cons.prems(2) ks2 obtain v2 where v2: "p2 k2 = Some v2" and c2: "CHR '':'' \<notin> set k2"
    by auto
  have r1: "v1 \<in> ran p1 \<union> ran p2" and r2: "v2 \<in> ran p1 \<union> ran p2"
    using v1 v2 by (auto simp: ran_def)
  have e1: "entry Marshal p1 k1 = k1 @ CHR '':'' # json v1"
    using json r1 v1 by (simp add: entry_def valueBytes_def)
  have e2: "entry Marshal p2 k2 = k2 @ CHR '':'' # json v2"
    using json r2 v2 by (simp add: entry_def valueBytes_def)
  let ?T1 = "later_entries (entry Marshal p1) r1"
  let ?T2 = "later_entries (entry Marshal p2) r2"
  from Cons.prems(3) have "k1 @ CHR '':'' # (json v1 @ ?T1) = k2 @ CHR '':'' # (json v2 @ ?T2)"
    by (simp add: ks2 later_entries_simps e1 e2)
  with c1 c2 have k: "k1 = k2" and rest: "json v1 @ ?T1 = json v2 @ ?T2"
    using split_at_colon by blast+
  have "v1 = v2"
    using sd r1 r2 rest delimited_later_entries [of "entry Marshal p1" r1]
      delimited_later_entries [of "entry Marshal p2" r2]
    unfolding self_delimiting_def by blast
  with rest have tails: "?T1 = ?T2"
    by simp
  have "r1 = r2 \<and> (\<forall>k\<in>set r1. p1 k = p2 k)"
    using Cons.prems(1,2) tails by (intro Cons.IH) (simp_all add: ks2)
  with k v1 v2 \<open>v1 = v2\<close> show ?case
    by (simp add: ks2)
qed

lemma canonical_encoding_inject:
  assumes i1: "distinct i1" "set i1 = dom p1" and i2: "distinct i2" "set i2 = dom p2"
    and keys: "\<forall>k\<in>dom p1 \<union> dom p2. CHR '':'' \<notin> set k"
    and json: "\<forall>v\<in>ran p1 \<union> ran p2. Marshal v = Inr (json v)"
    and sd: "self_delimiting json (ran p1 \<union> ran p2)"
    and eq: "canonical_encoding Marshal i1 p1 = canonical_encoding Marshal i2 p2"
  shows "p1 = p2"
proof -
  let ?k1 = "sort i1" and ?k2 = "sort i2"
  have s1: "set ?k1 = dom p1" and s2: "set ?k2 = dom p2"
    using i1 i2 by simp_all
  have j: "join ''|'' (map (entry Marshal p1) ?k1) = join ''|'' (map (entry Marshal p2) ?k2)"
    using eq by (simp only: canonical_encoding_join)
  have "?k1 = ?k2 \<and> (\<forall>k\<in>set ?k1. p1 k = p2 k)"
  proof (cases "?k1 = [] \<or> ?k2 = []")
    case True
    with j join_entries_nonempty [of ?k1 Marshal p1] join_entries_nonempty [of ?k2 Marshal p2]
    have "?k1 = [] \<and> ?k2 = []"
      by (cases "?k1 = []") auto
    then show ?thesis
      by simp
  next
    case False
    then have "later_entries (entry Marshal p1) ?k1 = later_entries (entry Marshal p2) ?k2"
      using j join_later_entries [of ?k1 "entry Marshal p1"]
        join_later_entries [of ?k2 "entry Marshal p2"] by metis
    moreover have "\<forall>k\<in>set ?k1. CHR '':'' \<notin> set k \<and> k \<in> dom p1"
      using keys s1 by blast
    moreover have "\<forall>k\<in>set ?k2. CHR '':'' \<notin> set k \<and> k \<in> dom p2"
      using keys s2 by blast
    ultimately show ?thesis
      using later_entries_inject [OF json sd] by blast
  qed
  then have ks: "?k1 = ?k2" and vals: "\<forall>k\<in>set ?k1. p1 k = p2 k"
    by blast+
  from ks have "set ?k1 = set ?k2"
    by (rule arg_cong)
  then have d: "dom p1 = dom p2"
    by (simp only: s1 s2)
  from vals have v: "\<forall>k\<in>dom p1. p1 k = p2 k"
    by (simp only: s1)
  show ?thesis
  proof
    fix k
    show "p1 k = p2 k"
    proof (cases "k \<in> dom p1")
      case True
      with v show ?thesis by blast
    next
      case False
      with d have "p1 k = None" "p2 k = None"
        by auto
      then show ?thesis by simp
    qed
  qed
qed

lemma key_same_bucket:
  "t1 sdiv 300 = t2 sdiv 300 \<Longrightarrow>
   GenerateIdempotencyKey t1 Marshal i1 p1 = GenerateIdempotencyKey t2 Marshal' i2 p2
     \<longleftrightarrow> Sum256 (canonical_encoding Marshal i1 p1) = Sum256 (canonical_encoding Marshal' i2 p2)"
  by (simp add: GenerateIdempotencyKey_def EncodeToString_inject)

lemma FormatInt_3: "FormatInt 3 = ''3''"
  by code_simp

lemma self_delimiting_mono:
  "V \<subseteq> W \<Longrightarrow> self_delimiting json W \<Longrightarrow> self_delimiting json V"
  unfolding self_delimiting_def by (meson subsetD)

lemma example_self_delimiting:
  "self_delimiting json_text {any_int 1, any_int 2, any_int 3, any_bool True}"
  unfolding self_delimiting_def delimited_def
  by (auto simp: json_text_simps FormatInt_1 FormatInt_2 FormatInt_3 neq_Nil_conv)

section \<open>Claims\<close>

text \<open>
  Claim C1. \<^verbatim>\<open>VerifySignature\<close> never panics: it always returns a boolean, and the
  boolean is true exactly when the header is the prefix \<^verbatim>\<open>sha256=\<close> followed by the
  hexadecimal HMAC-SHA256 of the body under the secret, which is 64 characters drawn from
  \<^verbatim>\<open>0123456789abcdef\<close>. A header without the prefix, and a header whose value after
  the prefix differs from that digest (in length or in content), give false.
\<close>

theorem VerifySignature_true_iff_expected_header:
  "VerifySignature body header secret =
     Inr (header = ''sha256='' @ EncodeToString (hmac sha256_New secret body))
   \<and> set (EncodeToString (hmac sha256_New secret body)) \<subseteq> set ''0123456789abcdef''
   \<and> length (EncodeToString (hmac sha256_New secret body)) = 64
   \<and> (\<not> HasPrefix header ''sha256='' \<longrightarrow> VerifySignature body header secret = Inr False)
   \<and> (received \<noteq> EncodeToString (hmac sha256_New secret body) \<longrightarrow>
        VerifySignature body (''sha256='' @ received) secret = Inr False)"
proof (intro conjI impI)
  show "VerifySignature body header secret =
      Inr (header = ''sha256='' @ EncodeToString (hmac sha256_New secret body))"
    by (rule VerifySignature_eq)
  show "set (EncodeToString (hmac sha256_New secret body)) \<subseteq> set ''0123456789abcdef''"
    by (rule EncodeToString_lowercase)
  show "length (EncodeToString (hmac sha256_New secret body)) = 64"
    by (simp add: length_EncodeToString length_hmac_sha256)
  show "VerifySignature body header secret = Inr False"
    if "\<not> HasPrefix header ''sha256=''"
    using that by (simp add: VerifySignature_def)
  show "VerifySignature body (''sha256='' @ received) secret = Inr False"
    if "received \<noteq> EncodeToString (hmac sha256_New secret body)"
    using that unfolding VerifySignature_eq by simp
qed

theorem VerifySignature_true_iff_expected_header_witness:
  "VerifySignature ''{}'' ''sha1=00'' ''k'' = Inr False
   \<and> VerifySignature ''{}'' (''sha256='' @ ''00'') ''k'' = Inr False"
proof -
  have a: "\<not> HasPrefix ''sha1=00'' ''sha256=''"
    by (simp add: HasPrefix_def)
  have "length ''00'' \<noteq> length (EncodeToString (hmac sha256_New ''k'' ''{}''))"
    by (simp add: length_EncodeToString length_hmac_sha256)
  then have b: "''00'' \<noteq> EncodeToString (hmac sha256_New ''k'' ''{}'')"
    by metis
  show ?thesis
    using VerifySignature_true_iff_expected_header
      [of "''{}''" "''sha1=00''" "''k''" "''00''"] a b
    by blast
qed

text \<open>
  Claim C10. \<^verbatim>\<open>VerifySignature\<close> checks neither emptiness nor white space: for every
  body and secret the header built from the HMAC of exactly these bytes verifies, also
  for an empty body and for an empty or blank secret, where signing returns the empty
  string.
\<close>

theorem VerifySignature_no_emptiness_check:
  "VerifySignature body (''sha256='' @ EncodeToString (hmac sha256_New secret body)) secret = Inr True
   \<and> SignPolar [] secret = [] \<and> SignHubtel [] secret = []
   \<and> SignPolar body [] = [] \<and> SignHubtel body [] = []
   \<and> SignPolar body [CHR 0x20, CHR 0x09] = [] \<and> SignHubtel body [CHR 0x20, CHR 0x09] = []"
  by (simp add: VerifySignature_eq SignPolar_def SignHubtel_def signHex_empty
      signHex_blank TrimSpace_Nil TrimSpace_blank)

text \<open>
  Claim C6. Signing an empty body gives the empty string whatever the secret, and signing
  with a secret that is empty after trimming gives the empty string whatever the body,
  for each of \<^verbatim>\<open>SignPaystack\<close>, \<^verbatim>\<open>SignHubtel\<close> and \<^verbatim>\<open>SignPolar\<close>.
\<close>

theorem sign_empty_input_sentinel:
  "SignPaystack [] secret = [] \<and> SignHubtel [] secret = [] \<and> SignPolar [] secret = []
   \<and> (TrimSpace secret = [] \<longrightarrow>
        SignPaystack body secret = [] \<and> SignHubtel body secret = [] \<and> SignPolar body secret = [])"
  by (simp add: SignPaystack_def SignHubtel_def SignPolar_def signHex_empty signHex_blank)

theorem sign_empty_input_sentinel_witness:
  \<open>SignPaystack ''{"foo":"bar"}'' [CHR 0x20, CHR 0x09] = []
   \<and> SignHubtel ''{"foo":"bar"}'' [CHR 0x20, CHR 0x09] = []
   \<and> SignPolar ''{"foo":"bar"}'' [CHR 0x20, CHR 0x09] = []
   \<and> SignPaystack ''{"foo":"bar"}'' [] = []\<close>
  using sign_empty_input_sentinel [of "[CHR 0x20, CHR 0x09]" \<open>''{"foo":"bar"}''\<close>]
    sign_empty_input_sentinel [of "[]" \<open>''{"foo":"bar"}''\<close>]
    TrimSpace_blank TrimSpace_Nil
  by blast

text \<open>
  Claim C7, as amended. A signature is empty exactly when the body is empty or the
  trimmed secret is; otherwise it is 64 characters long for the SHA-256 schemes
  \<^verbatim>\<open>SignHubtel\<close> and \<^verbatim>\<open>SignPolar\<close> and 128 characters long for the SHA-512 scheme
  \<^verbatim>\<open>SignPaystack\<close>. The empty string is told apart from a signature by its length in
  every scheme.
\<close>

theorem signature_lengths:
  "length (SignHubtel body secret) = (if body = [] \<or> TrimSpace secret = [] then 0 else 64)
   \<and> length (SignPolar body secret) = (if body = [] \<or> TrimSpace secret = [] then 0 else 64)
   \<and> length (SignPaystack body secret) = (if body = [] \<or> TrimSpace secret = [] then 0 else 128)"
  by (simp add: SignHubtel_def SignPolar_def SignPaystack_def length_signHex
      length_hmac_sha256 length_hmac_sha512)

text \<open>
  Claim C7 as stated fails for \<^verbatim>\<open>SignPaystack\<close>: its signature of the test body is not
  empty and not 64 characters long.
\<close>

theorem SignPaystack_not_64_chars:
  \<open>SignPaystack ''{"foo":"bar"}'' ''secret'' \<noteq> []
   \<and> length (SignPaystack ''{"foo":"bar"}'' ''secret'') \<noteq> 64\<close>
proof -
  have "length (SignPaystack ''{\"foo\":\"bar\"}'' ''secret'') = 128"
    by (simp add: SignPaystack_def length_signHex length_hmac_sha512 TrimSpace_secret)
  then show ?thesis
    by auto
qed

text \<open>
  Claim C5, as amended. For a non-empty body and a secret that is not blank, the header
  \<^verbatim>\<open>sha256=\<close> followed by the signature of \<^verbatim>\<open>SignPolar\<close> or \<^verbatim>\<open>SignHubtel\<close> verifies against
  the same body and the trimmed secret. Against the untrimmed secret it verifies exactly
  when the HMAC under the untrimmed secret equals the HMAC under the trimmed one:
  verification does not trim.
\<close>

theorem sign_verify_round_trip:
  "body \<noteq> [] \<Longrightarrow> TrimSpace secret \<noteq> [] \<Longrightarrow>
   VerifySignature body (''sha256='' @ SignPolar body secret) (TrimSpace secret) = Inr True
   \<and> VerifySignature body (''sha256='' @ SignHubtel body secret) (TrimSpace secret) = Inr True
   \<and> VerifySignature body (''sha256='' @ SignPolar body secret) secret =
        Inr (hmac sha256_New secret body = hmac sha256_New (TrimSpace secret) body)
   \<and> VerifySignature body (''sha256='' @ SignHubtel body secret) secret =
        Inr (hmac sha256_New secret body = hmac sha256_New (TrimSpace secret) body)"
  by (auto simp: VerifySignature_eq SignPolar_def SignHubtel_def signHex_signed
      EncodeToString_inject)

theorem sign_verify_round_trip_witness:
  \<open>VerifySignature ''{"foo":"bar"}'' (''sha256='' @ SignPolar ''{"foo":"bar"}'' '' secret'')
      ''secret'' = Inr True\<close>
  using sign_verify_round_trip [of \<open>''{"foo":"bar"}''\<close> "'' secret''"]
  by (simp add: TrimSpace_space_secret)


text \<open>
  Claim C9. The map of \<^verbatim>\<open>BuildMetadata\<close> has the key \<^verbatim>\<open>org_id\<close> (\<^verbatim>\<open>connection_id\<close>,
  \<^verbatim>\<open>payment_id\<close>) exactly when the corresponding argument is not empty after trimming, and
  no other key. Three plain identifiers give all three keys; three empty strings give
  the empty map.
\<close>

theorem BuildMetadata_keys:
  "(''org_id'' \<in> dom (BuildMetadata orgID connectionID paymentID) \<longleftrightarrow> TrimSpace orgID \<noteq> [])
   \<and> (''connection_id'' \<in> dom (BuildMetadata orgID connectionID paymentID)
        \<longleftrightarrow> TrimSpace connectionID \<noteq> [])
   \<and> (''payment_id'' \<in> dom (BuildMetadata orgID connectionID paymentID)
        \<longleftrightarrow> TrimSpace paymentID \<noteq> [])
   \<and> dom (BuildMetadata orgID connectionID paymentID)
        \<subseteq> {''org_id'', ''connection_id'', ''payment_id''}
   \<and> BuildMetadata ''org_1'' ''conn_1'' ''pay_1'' =
        [''org_id'' \<mapsto> ''org_1'', ''connection_id'' \<mapsto> ''conn_1'', ''payment_id'' \<mapsto> ''pay_1'']
   \<and> BuildMetadata [] [] [] = Map.empty"
  by (auto simp: BuildMetadata_def MetadataOrgID_def MetadataConnectionID_def
      MetadataPaymentID_def Let_def TrimSpace_Nil TrimSpace_org_1 TrimSpace_conn_1
      TrimSpace_pay_1 split: if_splits)

text \<open>
  Claim C2. Whatever order the iteration over the map yields the keys in, the text built
  inside \<^verbatim>\<open>GenerateIdempotencyKey\<close> is the canonical encoding of the specification: the
  keys in ascending byte order, each followed by a colon and the JSON text of its value,
  joined by bars. It is the same for every iteration order, and for every order in which
  the caller assigned the entries to the map.
\<close>

theorem canonical_encoding_refines_spec:
  "distinct iter \<Longrightarrow> set iter = dom params \<Longrightarrow> (\<forall>v\<in>ran params. Marshal v = Inr (json v)) \<Longrightarrow>
   canonical_encoding Marshal iter params = canonical_spec json params
   \<and> (\<forall>iter'. distinct iter' \<and> set iter' = dom params \<longrightarrow>
         canonical_encoding Marshal iter' params = canonical_encoding Marshal iter params)
   \<and> (\<forall>kvs kvs' it it'.
         distinct (map fst kvs) \<and> distinct (map fst kvs') \<and> set kvs = set kvs'
         \<and> distinct it \<and> set it = dom (build_params kvs)
         \<and> distinct it' \<and> set it' = dom (build_params kvs') \<longrightarrow>
         canonical_encoding Marshal it (build_params kvs) =
           canonical_encoding Marshal it' (build_params kvs'))"
proof (intro conjI allI impI)
  assume a: "distinct iter" "set iter = dom params" "\<forall>v\<in>ran params. Marshal v = Inr (json v)"
  show "canonical_encoding Marshal iter params = canonical_spec json params"
    using a by (rule canonical_encoding_spec)
  show "canonical_encoding Marshal iter' params = canonical_encoding Marshal iter params"
    if "distinct iter' \<and> set iter' = dom params" for iter'
    using a(1,2) that by (intro canonical_encoding_order) simp_all
  show "canonical_encoding Marshal it (build_params kvs) =
      canonical_encoding Marshal it' (build_params kvs')"
    if h: "distinct (map fst kvs) \<and> distinct (map fst kvs') \<and> set kvs = set kvs'
      \<and> distinct it \<and> set it = dom (build_params kvs)
      \<and> distinct it' \<and> set it' = dom (build_params kvs')"
    for kvs kvs' it it'
  proof -
    from h have e: "build_params kvs = build_params kvs'"
      by (intro build_params_insertion_order) simp_all
    have "canonical_encoding Marshal it (build_params kvs') =
        canonical_encoding Marshal it' (build_params kvs')"
      using h e by (intro canonical_encoding_order) simp_all
    then show ?thesis
      by (simp only: e)
  qed
qed

theorem canonical_encoding_refines_spec_witness:
  "canonical_spec json_text [''a'' \<mapsto> any_int 1, ''b'' \<mapsto> any_bool True] = ''a:1|b:true''
   \<and> canonical_encoding json_Marshal [''a'', ''b''] [''a'' \<mapsto> any_int 1, ''b'' \<mapsto> any_bool True] = ''a:1|b:true''
   \<and> canonical_encoding json_Marshal [''a'', ''b''] (build_params [(''a'', any_int 1), (''b'', any_bool True)]) =
       canonical_encoding json_Marshal [''b'', ''a''] (build_params [(''b'', any_bool True), (''a'', any_int 1)])"
proof -
  let ?p = "[''a'' \<mapsto> any_int 1, ''b'' \<mapsto> any_bool True]"
  have d: "distinct [''b'', ''a'']" "set [''b'', ''a''] = dom ?p"
    by auto
  have r: "\<forall>v\<in>ran ?p. json_Marshal v = Inr (json_text v)"
    by (auto simp: ran_def json_text_simps)
  have d': "distinct [''a'', ''b''] \<and> set [''a'', ''b''] = dom ?p"
    by auto
  have k: "distinct (map fst [(''a'', any_int 1), (''b'', any_bool True)])
      \<and> distinct (map fst [(''b'', any_bool True), (''a'', any_int 1)])
      \<and> set [(''a'', any_int 1), (''b'', any_bool True)] = set [(''b'', any_bool True), (''a'', any_int 1)]
      \<and> distinct [''a'', ''b'']
      \<and> set [''a'', ''b''] = dom (build_params [(''a'', any_int 1), (''b'', any_bool True)])
      \<and> distinct [''b'', ''a'']
      \<and> set [''b'', ''a''] = dom (build_params [(''b'', any_bool True), (''a'', any_int 1)])"
    unfolding example_params_built by auto
  note t = canonical_encoding_refines_spec [OF d r]
  from t have 1: "canonical_spec json_text ?p = ''a:1|b:true''"
    using example_encoding by simp
  from t d' have 2: "canonical_encoding json_Marshal [''a'', ''b''] ?p = ''a:1|b:true''"
    using example_encoding by metis
  from t k have 3: "canonical_encoding json_Marshal [''a'', ''b''] (build_params [(''a'', any_int 1), (''b'', any_bool True)]) =
       canonical_encoding json_Marshal [''b'', ''a''] (build_params [(''b'', any_bool True), (''a'', any_int 1)])"
    by blast
  from 1 2 3 show ?thesis
    by blast
qed

text \<open>
  Claim C3. At a time \<open>t \<ge> 0\<close> the key is \<^verbatim>\<open>reevit_\<close>, the decimal digits of
  \<open>t div 300\<close>, an underscore and the SHA-256 digest of the canonical encoding as 64
  lowercase hexadecimal characters. For one parameter set, two calls return the same key
  exactly when their times fall in the same bucket of 300 seconds.
\<close>

theorem GenerateIdempotencyKey_format:
  "0 \<le> t \<Longrightarrow> distinct iter \<Longrightarrow> set iter = dom params \<Longrightarrow>
   (\<forall>v\<in>ran params. Marshal v = Inr (json v)) \<Longrightarrow>
   GenerateIdempotencyKey t Marshal iter params =
     ''reevit_'' @ digits (t div 300) @ ''_'' @ EncodeToString (Sum256 (canonical_spec json params))
   \<and> decimal_value (digits (t div 300)) = t div 300
   \<and> set (digits (t div 300)) \<subseteq> set ''0123456789''
   \<and> length (EncodeToString (Sum256 (canonical_spec json params))) = 64
   \<and> set (EncodeToString (Sum256 (canonical_spec json params))) \<subseteq> set ''0123456789abcdef''
   \<and> (\<forall>t' iter'. 0 \<le> t' \<and> distinct iter' \<and> set iter' = dom params \<longrightarrow>
         (GenerateIdempotencyKey t' Marshal iter' params = GenerateIdempotencyKey t Marshal iter params
            \<longleftrightarrow> t' div 300 = t div 300))"
proof (intro conjI allI impI)
  assume t: "0 \<le> t" and i: "distinct iter" "set iter = dom params"
    and m: "\<forall>v\<in>ran params. Marshal v = Inr (json v)"
  have b: "0 \<le> t div 300"
    using t by simp
  have enc: "canonical_encoding Marshal iter params = canonical_spec json params"
    using i m by (rule canonical_encoding_spec)
  show "GenerateIdempotencyKey t Marshal iter params =
      ''reevit_'' @ digits (t div 300) @ ''_'' @ EncodeToString (Sum256 (canonical_spec json params))"
    by (simp only: GenerateIdempotencyKey_nonneg [OF t] enc)
  show "decimal_value (digits (t div 300)) = t div 300"
    using b by (rule decimal_value_digits)
  show "set (digits (t div 300)) \<subseteq> set ''0123456789''"
    using b by (rule digits_decimal)
  show "length (EncodeToString (Sum256 (canonical_spec json params))) = 64"
    by (simp add: length_EncodeToString length_Sum256)
  show "set (EncodeToString (Sum256 (canonical_spec json params))) \<subseteq> set ''0123456789abcdef''"
    by (rule EncodeToString_lowercase)
  show "GenerateIdempotencyKey t' Marshal iter' params = GenerateIdempotencyKey t Marshal iter params
      \<longleftrightarrow> t' div 300 = t div 300"
    if h: "0 \<le> t' \<and> distinct iter' \<and> set iter' = dom params" for t' iter'
  proof -
    from h have t': "0 \<le> t'"
      by simp
    then have b': "0 \<le> t' div 300"
      by simp
    have enc': "canonical_encoding Marshal iter' params = canonical_encoding Marshal iter params"
      using i h by (intro canonical_encoding_order) simp_all
    have "GenerateIdempotencyKey t' Marshal iter' params = GenerateIdempotencyKey t Marshal iter params
        \<longleftrightarrow> digits (t' div 300) = digits (t div 300)"
      unfolding GenerateIdempotencyKey_nonneg [OF t] GenerateIdempotencyKey_nonneg [OF t'] enc'
      by (rule key_same_digest)
    also have "\<dots> \<longleftrightarrow> t' div 300 = t div 300"
      using b' b by (rule digits_inject)
    finally show ?thesis .
  qed
qed

text \<open>
  Claim C4, as amended. For parameter sets whose keys contain no colon, and a JSON
  serialization that is self-delimiting on their values, two parameter sets have the same
  canonical encoding exactly when they are the same map. In one time bucket two keys are
  equal exactly when the SHA-256 digests of the two encodings are equal, so keys of
  different such parameter sets differ unless SHA-256 collides on the two encodings.
\<close>

theorem canonical_encoding_injective:
  "distinct i1 \<Longrightarrow> set i1 = dom p1 \<Longrightarrow> distinct i2 \<Longrightarrow> set i2 = dom p2 \<Longrightarrow>
   (\<forall>k\<in>dom p1 \<union> dom p2. CHR '':'' \<notin> set k) \<Longrightarrow>
   (\<forall>v\<in>ran p1 \<union> ran p2. Marshal v = Inr (json v)) \<Longrightarrow>
   self_delimiting json (ran p1 \<union> ran p2) \<Longrightarrow>
   (canonical_encoding Marshal i1 p1 = canonical_encoding Marshal i2 p2 \<longleftrightarrow> p1 = p2)
   \<and> (\<forall>t1 t2. t1 sdiv 300 = t2 sdiv 300 \<longrightarrow>
         (GenerateIdempotencyKey t1 Marshal i1 p1 = GenerateIdempotencyKey t2 Marshal i2 p2
            \<longleftrightarrow> Sum256 (canonical_encoding Marshal i1 p1) =
                 Sum256 (canonical_encoding Marshal i2 p2)))"
proof (intro conjI allI impI iffI)
  assume i1: "distinct i1" "set i1 = dom p1" and i2: "distinct i2" "set i2 = dom p2"
    and keys: "\<forall>k\<in>dom p1 \<union> dom p2. CHR '':'' \<notin> set k"
    and json: "\<forall>v\<in>ran p1 \<union> ran p2. Marshal v = Inr (json v)"
    and sd: "self_delimiting json (ran p1 \<union> ran p2)"
  show "p1 = p2" if "canonical_encoding Marshal i1 p1 = canonical_encoding Marshal i2 p2"
    using i1 i2 keys json sd that by (rule canonical_encoding_inject)
  show "canonical_encoding Marshal i1 p1 = canonical_encoding Marshal i2 p2" if e: "p1 = p2"
  proof -
    from i1 have "distinct i1" "set i1 = dom p2"
      by (simp_all only: e)
    with i2 have "canonical_encoding Marshal i1 p2 = canonical_encoding Marshal i2 p2"
      by (rule canonical_encoding_order)
    then show ?thesis
      by (simp only: e)
  qed
  show "Sum256 (canonical_encoding Marshal i1 p1) = Sum256 (canonical_encoding Marshal i2 p2)"
    if b: "t1 sdiv 300 = t2 sdiv 300"
      and "GenerateIdempotencyKey t1 Marshal i1 p1 = GenerateIdempotencyKey t2 Marshal i2 p2"
    for t1 t2
    using that(2) by (rule key_same_bucket [OF b, THEN iffD1])
  show "GenerateIdempotencyKey t1 Marshal i1 p1 = GenerateIdempotencyKey t2 Marshal i2 p2"
    if b: "t1 sdiv 300 = t2 sdiv 300"
      and "Sum256 (canonical_encoding Marshal i1 p1) = Sum256 (canonical_encoding Marshal i2 p2)"
    for t1 t2
    using that(2) by (rule key_same_bucket [OF b, THEN iffD2])
qed

theorem canonical_encoding_injective_witness:
  "canonical_encoding json_Marshal [''b'', ''a''] [''a'' \<mapsto> any_int 1, ''b'' \<mapsto> any_int 2] \<noteq>
     canonical_encoding json_Marshal [''a'', ''b''] [''a'' \<mapsto> any_int 1, ''b'' \<mapsto> any_int 3]
   \<and> (GenerateIdempotencyKey 1700000000 json_Marshal [''b'', ''a'']
          [''a'' \<mapsto> any_int 1, ''b'' \<mapsto> any_int 2] =
        GenerateIdempotencyKey 1700000099 json_Marshal [''a'', ''b'']
          [''a'' \<mapsto> any_int 1, ''b'' \<mapsto> any_int 3]
        \<longleftrightarrow> Sum256 (canonical_encoding json_Marshal [''b'', ''a'']
                  [''a'' \<mapsto> any_int 1, ''b'' \<mapsto> any_int 2]) =
             Sum256 (canonical_encoding json_Marshal [''a'', ''b'']
                  [''a'' \<mapsto> any_int 1, ''b'' \<mapsto> any_int 3]))"
proof -
  let ?p = "[''a'' \<mapsto> any_int 1, ''b'' \<mapsto> any_int 2]"
  let ?q = "[''a'' \<mapsto> any_int 1, ''b'' \<mapsto> any_int 3]"
  have i: "distinct [''b'', ''a'']" "set [''b'', ''a''] = dom ?p"
    "distinct [''a'', ''b'']" "set [''a'', ''b''] = dom ?q"
    by auto
  have k: "\<forall>k\<in>dom ?p \<union> dom ?q. CHR '':'' \<notin> set k"
    by auto
  have ran: "ran ?p \<union> ran ?q \<subseteq> {any_int 1, any_int 2, any_int 3, any_bool True}"
    by (auto simp: ran_def split: if_splits)
  have j: "\<forall>v\<in>ran ?p \<union> ran ?q. json_Marshal v = Inr (json_text v)"
    using ran by (auto simp: json_text_simps)
  have sd: "self_delimiting json_text (ran ?p \<union> ran ?q)"
    using ran example_self_delimiting by (rule self_delimiting_mono)
  have ne: "?p \<noteq> ?q"
  proof
    assume "?p = ?q"
    then have "?p ''b'' = ?q ''b''"
      by (rule arg_cong)
    then show False
      by simp
  qed
  have b: "(1700000000::int) sdiv 300 = 1700000099 sdiv 300"
    by (simp add: sdiv_nonneg)
  note inj = canonical_encoding_injective [OF i k j sd]
  from inj [THEN conjunct1] ne
  have "canonical_encoding json_Marshal [''b'', ''a''] ?p \<noteq>
      canonical_encoding json_Marshal [''a'', ''b''] ?q"
    by (simp only: simp_thms)
  moreover note inj [THEN conjunct2, THEN spec, THEN spec, THEN mp, OF b]
  ultimately show ?thesis
    by (rule conjI)
qed

text \<open>
  Claim C4 as stated fails: keys are written unescaped, and a key that contains a colon
  and a bar can spell out the entries of another parameter set. The two maps differ, and
  have the same encoding and the same key.
\<close>

theorem canonical_encoding_collision:
  "[''a'' \<mapsto> any_int 1, ''b'' \<mapsto> any_int 2] \<noteq> [''a:1|b'' \<mapsto> any_int 2]
   \<and> canonical_encoding json_Marshal [''a'', ''b''] [''a'' \<mapsto> any_int 1, ''b'' \<mapsto> any_int 2] =
       canonical_encoding json_Marshal [''a:1|b''] [''a:1|b'' \<mapsto> any_int 2]
   \<and> GenerateIdempotencyKey 1700000000 json_Marshal [''a'', ''b'']
         [''a'' \<mapsto> any_int 1, ''b'' \<mapsto> any_int 2] =
       GenerateIdempotencyKey 1700000000 json_Marshal [''a:1|b''] [''a:1|b'' \<mapsto> any_int 2]"
proof -
  let ?p = "[''a'' \<mapsto> any_int 1, ''b'' \<mapsto> any_int 2]"
  let ?q = "[''a:1|b'' \<mapsto> any_int 2]"
  have ne: "?p \<noteq> ?q"
  proof
    assume "?p = ?q"
    then have "?p ''b'' = ?q ''b''"
      by (rule arg_cong)
    then show False
      by simp
  qed
  have 1: "canonical_encoding json_Marshal [''a'', ''b''] ?p = ''a:1|b:2''"
    by code_simp
  have 2: "canonical_encoding json_Marshal [''a:1|b''] ?q = ''a:1|b:2''"
    by code_simp
  from ne 1 2 show ?thesis
    by (simp add: GenerateIdempotencyKey_def)
qed
section \<open>Known vectors\<close>

lemma hmac_sha256_secret:
  \<open>EncodeToString (hmac sha256_New ''secret'' ''{"foo":"bar"}'') =
     ''3f3ab3986b656abb17af3eb1443ed6c08ef8fff9fea83915909d1b421aec89be''\<close>
  by code_simp

lemma hmac_sha256_space_secret:
  \<open>EncodeToString (hmac sha256_New '' secret'' ''{"foo":"bar"}'') =
     ''10a4b233ec26605dc90757520910d73ea4b7a5345d97e5cadf4da8791f4028d6''\<close>
  by code_simp

lemma hmac_sha512_secret:
  \<open>EncodeToString (hmac sha512_New ''secret'' ''{"foo":"bar"}'') =
     ''f519630fca75a1fc5d62fd2547858feccd17a564fcc45c8e209b66cf1d7711b7ceec3e299961e6ae4b5c5f130dcacbe0fdb552bd2f9e9d9ecc06cc783681faa0''\<close>
  by code_simp

lemma TrimSpace_secret_hash: "TrimSpace '' secret-hash '' = ''secret-hash''"
  by code_simp

text \<open>
  Claim C8. The literal vectors of the test file: the SHA-512 signature of
  \<^verbatim>\<open>SignPaystack\<close>, the SHA-256 signature shared by \<^verbatim>\<open>SignHubtel\<close> and \<^verbatim>\<open>SignPolar\<close>, and
  \<^verbatim>\<open>FlutterwaveHash\<close> returning its argument trimmed.
\<close>

theorem known_vectors:
  \<open>SignPaystack ''{"foo":"bar"}'' ''secret'' =
     ''f519630fca75a1fc5d62fd2547858feccd17a564fcc45c8e209b66cf1d7711b7ceec3e299961e6ae4b5c5f130dcacbe0fdb552bd2f9e9d9ecc06cc783681faa0''
   \<and> SignHubtel ''{"foo":"bar"}'' ''secret'' =
     ''3f3ab3986b656abb17af3eb1443ed6c08ef8fff9fea83915909d1b421aec89be''
   \<and> SignPolar ''{"foo":"bar"}'' ''secret'' =
     ''3f3ab3986b656abb17af3eb1443ed6c08ef8fff9fea83915909d1b421aec89be''
   \<and> FlutterwaveHash '' secret-hash '' = ''secret-hash''\<close>
  by (simp add: SignPaystack_def SignHubtel_def SignPolar_def FlutterwaveHash_def
      signHex_def TrimSpace_secret TrimSpace_secret_hash hmac_sha256_secret
      hmac_sha512_secret)

text \<open>
  Claim C5 as stated fails: a secret with a leading space is trimmed by signing and not
  by verification, and the header made from the signature is rejected under the
  untrimmed secret.
\<close>

theorem round_trip_rejects_untrimmed_secret:
  \<open>''{"foo":"bar"}'' \<noteq> [] \<and> TrimSpace '' secret'' \<noteq> []
   \<and> VerifySignature ''{"foo":"bar"}'' (''sha256='' @ SignPolar ''{"foo":"bar"}'' '' secret'')
        '' secret'' = Inr False
   \<and> VerifySignature ''{"foo":"bar"}'' (''sha256='' @ SignHubtel ''{"foo":"bar"}'' '' secret'')
        '' secret'' = Inr False\<close>
  by (simp add: VerifySignature_eq SignPolar_def SignHubtel_def signHex_def
      TrimSpace_space_secret hmac_sha256_secret hmac_sha256_space_secret)

lemma example_digest:
  "EncodeToString (Sum256 ''a:1|b:true'') =
     ''3fb9bd8f76d964c31a87ce814e168fbec5ccba6d21c9c60f0fdafb161340a607''"
  by code_simp

theorem GenerateIdempotencyKey_format_witness:
  "GenerateIdempotencyKey 1700000000 json_Marshal [''b'', ''a'']
      [''a'' \<mapsto> any_int 1, ''b'' \<mapsto> any_bool True] =
     ''reevit_5666666_3fb9bd8f76d964c31a87ce814e168fbec5ccba6d21c9c60f0fdafb161340a607''
   \<and> GenerateIdempotencyKey 1700000099 json_Marshal [''a'', ''b'']
        [''a'' \<mapsto> any_int 1, ''b'' \<mapsto> any_bool True] =
       GenerateIdempotencyKey 1700000000 json_Marshal [''b'', ''a'']
        [''a'' \<mapsto> any_int 1, ''b'' \<mapsto> any_bool True]
   \<and> GenerateIdempotencyKey 1700000100 json_Marshal [''a'', ''b'']
        [''a'' \<mapsto> any_int 1, ''b'' \<mapsto> any_bool True] \<noteq>
       GenerateIdempotencyKey 1700000000 json_Marshal [''b'', ''a'']
        [''a'' \<mapsto> any_int 1, ''b'' \<mapsto> any_bool True]"
proof -
  let ?p = "[''a'' \<mapsto> any_int 1, ''b'' \<mapsto> any_bool True]"
  have t: "(0::int) \<le> 1700000000"
    by simp
  have d: "distinct [''b'', ''a'']" "set [''b'', ''a''] = dom ?p"
    by auto
  have r: "\<forall>v\<in>ran ?p. json_Marshal v = Inr (json_text v)"
    by (auto simp: ran_def json_text_simps)
  have spec: "canonical_spec json_text ?p = ''a:1|b:true''"
    using canonical_encoding_spec [OF d r] example_encoding by simp
  note f = GenerateIdempotencyKey_format [OF t d r]
  from f have 1: "GenerateIdempotencyKey 1700000000 json_Marshal [''b'', ''a''] ?p =
      ''reevit_'' @ digits (1700000000 div 300) @ ''_'' @ EncodeToString (Sum256 (canonical_spec json_text ?p))"
    by blast
  have s: "(0::int) \<le> 1700000099 \<and> distinct [''a'', ''b''] \<and> set [''a'', ''b''] = dom ?p"
    by auto
  have s': "(0::int) \<le> 1700000100 \<and> distinct [''a'', ''b''] \<and> set [''a'', ''b''] = dom ?p"
    by auto
  from f s have 2: "GenerateIdempotencyKey 1700000099 json_Marshal [''a'', ''b''] ?p =
      GenerateIdempotencyKey 1700000000 json_Marshal [''b'', ''a''] ?p
      \<longleftrightarrow> (1700000099::int) div 300 = 1700000000 div 300"
    by blast
  from f s' have 3: "GenerateIdempotencyKey 1700000100 json_Marshal [''a'', ''b''] ?p =
      GenerateIdempotencyKey 1700000000 json_Marshal [''b'', ''a''] ?p
      \<longleftrightarrow> (1700000100::int) div 300 = 1700000000 div 300"
    by blast
  from 1 have "GenerateIdempotencyKey 1700000000 json_Marshal [''b'', ''a''] ?p =
      ''reevit_5666666_3fb9bd8f76d964c31a87ce814e168fbec5ccba6d21c9c60f0fdafb161340a607''"
    by (simp only: spec example_bucket example_digest) simp
  moreover from 2 have "GenerateIdempotencyKey 1700000099 json_Marshal [''a'', ''b''] ?p =
      GenerateIdempotencyKey 1700000000 json_Marshal [''b'', ''a''] ?p"
    by simp
  moreover from 3 have "GenerateIdempotencyKey 1700000100 json_Marshal [''a'', ''b''] ?p \<noteq>
      GenerateIdempotencyKey 1700000000 json_Marshal [''b'', ''a''] ?p"
    by simp
  ultimately show ?thesis
    by blast
qed

end
